theory Spec2Isabelle
  imports Main "HOL-Library.List_Lexorder"
begin

section \<open>Python strings\<close>

text \<open>
  A Python \<open>str\<close> is a sequence of Unicode code points, and \<open>len\<close> counts code points.
  A character is therefore modelled by its code point, a natural number, and a string by
  the list of its code points. \<open>str ''abc''\<close> writes an ASCII literal of the source.
\<close>

type_synonym pychar = nat
type_synonym pystr = "pychar list"

definition str :: "string \<Rightarrow> pystr" where
  "str s = map of_char s"

text \<open>
  \<open>str.isspace\<close> of one character: the code points CPython treats as whitespace, which
  are the ones \<open>str.split()\<close> and \<open>str.strip()\<close> without arguments cut at.
\<close>

definition isspace :: "pychar \<Rightarrow> bool" where
  "isspace c = (c \<in> {9, 10, 11, 12, 13, 28, 29, 30, 31, 32, 133, 160, 5760,
      8192, 8193, 8194, 8195, 8196, 8197, 8198, 8199, 8200, 8201, 8202,
      8232, 8233, 8239, 8287, 12288})"

text \<open>\<open>s.strip()\<close>: leading and trailing whitespace removed.\<close>

definition strip :: "pystr \<Rightarrow> pystr" where
  "strip s = rev (dropWhile isspace (rev (dropWhile isspace s)))"

text \<open>
  \<open>s.split()\<close>: skip whitespace, read a token up to the next whitespace, repeat; no
  empty token is produced.
\<close>

function split :: "pystr \<Rightarrow> pystr list" where
  "split [] = []"
| "split (c # cs) =
     (if isspace c then split cs
      else takeWhile (\<lambda>x. \<not> isspace x) (c # cs) #
           split (dropWhile (\<lambda>x. \<not> isspace x) cs))"
  by pat_completeness auto
termination
  by (relation "measure length") (auto simp: less_Suc_eq_le length_dropWhile_le)

text \<open>\<open>s.startswith(p)\<close>.\<close>

definition startswith :: "pystr \<Rightarrow> pystr \<Rightarrow> bool" where
  "startswith s p = (take (length p) s = p)"

text \<open>\<open>sep.join(xs)\<close>.\<close>

fun join :: "pystr \<Rightarrow> pystr list \<Rightarrow> pystr" where
  "join sep [] = []"
| "join sep [x] = x"
| "join sep (x # y # ys) = x @ sep @ join sep (y # ys)"

text \<open>
  \<open>range(0, stop, step)\<close> for a positive step: the multiples of \<open>step\<close> below \<open>stop\<close>.
\<close>

definition range_step :: "nat \<Rightarrow> nat \<Rightarrow> nat list" where
  "range_step stop step = map (\<lambda>k. k * step) [0 ..< (stop + step - 1) div step]"

section \<open>urllib.parse.urlparse\<close>

text \<open>
  \<open>save_link\<close> reads only \<open>urlparse(link).netloc\<close> and catches \<open>ValueError\<close>. The
  model follows CPython's \<open>urlsplit\<close> (which \<open>urlparse\<close> calls, and whose scheme and
  netloc it returns unchanged): the scheme is cut off at the first \<open>:\<close> when the text
  before it starts with an ASCII letter and holds only scheme characters; when the rest
  starts with \<open>//\<close>, the netloc runs from there to the first \<open>/\<close>, \<open>?\<close> or \<open>#\<close>.
  A netloc with one of \<open>[\<close>, \<open>]\<close> but not the other raises \<open>ValueError\<close>.

  Two further checks depend on the Python version and on Unicode tables: the syntax of
  a bracketed host (a netloc with both brackets) and the NFKC check of a non-ASCII
  netloc. They are the parameter \<open>rejects\<close>, consulted on such a netloc only. The
  removal of tab, carriage return and line feed and of leading control characters,
  which newer versions do first, is left out: the handler passes a token of \<open>split\<close>,
  which holds no whitespace, behind the prefix \<open>http\<close>.
\<close>

datatype py_error = ValueError

definition ascii_alpha :: "pychar \<Rightarrow> bool" where
  "ascii_alpha c = ((65 \<le> c \<and> c \<le> 90) \<or> (97 \<le> c \<and> c \<le> 122))"

definition scheme_char :: "pychar \<Rightarrow> bool" where
  "scheme_char c =
     ((97 \<le> c \<and> c \<le> 122) \<or> (65 \<le> c \<and> c \<le> 90) \<or> (48 \<le> c \<and> c \<le> 57) \<or>
      c = 43 \<or> c = 45 \<or> c = 46)"

definition ascii_lower :: "pychar \<Rightarrow> pychar" where
  "ascii_lower c = (if 65 \<le> c \<and> c \<le> 90 then c + 32 else c)"

text \<open>The scheme and what follows its colon; an empty scheme when there is none.\<close>

definition split_scheme :: "pystr \<Rightarrow> pystr \<times> pystr" where
  "split_scheme url =
     (let pre = takeWhile (\<lambda>c. c \<noteq> 58) url in
      if length pre < length url \<and> pre \<noteq> [] \<and> ascii_alpha (hd pre) \<and> list_all scheme_char pre
      then (map ascii_lower pre, drop (length pre + 1) url)
      else ([], url))"

definition urlparse :: "(pystr \<Rightarrow> bool) \<Rightarrow> pystr \<Rightarrow> py_error + (pystr \<times> pystr)" where
  "urlparse rejects url =
     (let (scheme, rest) = split_scheme url in
      if take 2 rest = str ''//'' then
        (let netloc = takeWhile (\<lambda>c. c \<noteq> 47 \<and> c \<noteq> 63 \<and> c \<noteq> 35) (drop 2 rest) in
         if (91 \<in> set netloc \<and> 93 \<notin> set netloc) \<or> (93 \<in> set netloc \<and> 91 \<notin> set netloc)
         then Inl ValueError
         else if ((91 \<in> set netloc \<and> 93 \<in> set netloc) \<or> \<not> list_all (\<lambda>c. c < 128) netloc)
                 \<and> rejects netloc
         then Inl ValueError
         else Inr (scheme, netloc))
      else Inr (scheme, []))"

section \<open>The links collection\<close>

text \<open>
  A document of \<open>links_collection\<close> as \<open>save_link\<close> builds it, and the collection as
  the list of its documents in insertion order, which is the order a query returns
  them in.
\<close>

record link_data =
  user_id :: int
  link :: pystr
  tags :: "pystr list"
  created_at :: nat

type_synonym collection = "link_data list"

text \<open>
  The two query conditions the handlers use. \<open>{'user_id': u}\<close> compares the field;
  \<open>{'tags': t}\<close> on the array field \<open>tags\<close> holds when some element of the array is
  \<open>t\<close>. A query document is the conjunction of its conditions.
\<close>

datatype cond = UserId int | Tags pystr

fun holds :: "link_data \<Rightarrow> cond \<Rightarrow> bool" where
  "holds d (UserId u) = (user_id d = u)"
| "holds d (Tags t) = (t \<in> set (tags d))"

definition find_docs :: "cond list \<Rightarrow> collection \<Rightarrow> link_data list" where
  "find_docs query coll = filter (\<lambda>d. list_all (holds d) query) coll"

definition insert_one :: "link_data \<Rightarrow> collection \<Rightarrow> collection" where
  "insert_one d coll = coll @ [d]"

text \<open>The query of \<open>list_links\<close> and \<open>show_tags\<close>, and the query of \<open>find_by_tag\<close>.\<close>

definition list_by_owner :: "int \<Rightarrow> collection \<Rightarrow> link_data list" where
  "list_by_owner uid coll = find_docs [UserId uid] coll"

definition find_by_owner_and_tag :: "int \<Rightarrow> pystr \<Rightarrow> collection \<Rightarrow> link_data list" where
  "find_by_owner_and_tag uid tag coll = find_docs [UserId uid, Tags tag] coll"

section \<open>The handlers\<close>

text \<open>
  A handler takes what it reads of the update (the caller's id, the message text or
  the command's arguments) and the collection, and returns the texts it passes to
  \<open>reply_text\<close>, in order; \<open>save_link\<close> also returns the collection afterwards.
\<close>

subsection \<open>save_link\<close>

definition usage_save :: pystr where
  "usage_save =
     str ''Please provide a link and optional tags.\<newline>Format: /save <link> #tag1 #tag2''"

definition invalid_url :: pystr where
  "invalid_url =
     str ''Please provide a valid URL.\<newline>Example: www.example.com or https://example.com''"

text \<open>\<open>[word[1:] for word in parts[2:] if word.startswith('#')]\<close>\<close>

definition extract_tags :: "pystr list \<Rightarrow> pystr list" where
  "extract_tags parts = map (drop 1) (filter (\<lambda>word. startswith word (str ''#'')) (drop 2 parts))"

text \<open>\<open>https://\<close> is put in front unless the link starts with \<open>http://\<close> or \<open>https://\<close>.\<close>

definition add_protocol :: "pystr \<Rightarrow> pystr" where
  "add_protocol l =
     (if \<not> (startswith l (str ''http://'') \<or> startswith l (str ''https://''))
      then str ''https://'' @ l else l)"

text \<open>The validation: \<open>urlparse\<close> returns, and the netloc is not empty.\<close>

definition valid_url :: "(pystr \<Rightarrow> bool) \<Rightarrow> pystr \<Rightarrow> bool" where
  "valid_url rejects l =
     (case urlparse rejects l of Inl ValueError \<Rightarrow> False | Inr (scheme, netloc) \<Rightarrow> netloc \<noteq> [])"

definition saved_reply :: "pystr list \<Rightarrow> pystr" where
  "saved_reply ts =
     str ''Link saved successfully with tags: '' @
     (if ts \<noteq> [] then join (str '', '') ts else str ''no tags'')"

definition save_link ::
  "(pystr \<Rightarrow> bool) \<Rightarrow> int \<Rightarrow> pystr \<Rightarrow> nat \<Rightarrow> collection \<Rightarrow> pystr list \<times> collection" where
  "save_link rejects uid message_text now coll =
     (let text = strip message_text in
      if length (split text) < 2 then ([usage_save], coll)
      else
        let parts = split text;
            l = add_protocol (parts ! 1);
            ts = extract_tags parts
        in if \<not> valid_url rejects l then ([invalid_url], coll)
           else ([saved_reply ts],
                 insert_one \<lparr>user_id = uid, link = l, tags = ts, created_at = now\<rparr> coll))"

subsection \<open>list_links\<close>

text \<open>One line of the listing; 8226 is the bullet.\<close>

definition format_link :: "link_data \<Rightarrow> pystr" where
  "format_link d =
     [8226, 32] @ link d @
     (if tags d \<noteq> [] then str '' ['' @ join (str '', '') (tags d) @ str '']'' else []) @
     [10]"

text \<open>The loop \<open>for link in links: message += ...\<close>, from the header on.\<close>

definition add_links :: "pystr \<Rightarrow> link_data list \<Rightarrow> pystr" where
  "add_links header links = foldl (\<lambda>message d. message @ format_link d) header links"

definition list_message :: "link_data list \<Rightarrow> pystr" where
  "list_message links = add_links (str ''Your saved links:\<newline>\<newline>'') links"

text \<open>\<open>[message[i:i+4000] for i in range(0, len(message), 4000)]\<close>\<close>

definition chunks :: "pystr \<Rightarrow> pystr list" where
  "chunks message =
     map (\<lambda>i. take 4000 (drop i message)) (range_step (length message) 4000)"

definition list_links :: "int \<Rightarrow> collection \<Rightarrow> pystr list" where
  "list_links uid coll =
     (let links = list_by_owner uid coll in
      if links = [] then [str ''You haven't saved any links yet.'']
      else
        let message = list_message links
        in if 4000 < length message then chunks message else [message])"

subsection \<open>show_tags\<close>

text \<open>
  The set of the caller's tags is filled document by document; \<open>sorted\<close> of a set is
  the sorted list of its elements, each once. Strings compare lexicographically by
  code point.
\<close>

definition show_tags :: "int \<Rightarrow> collection \<Rightarrow> pystr list" where
  "show_tags uid coll =
     (let all_tags = concat (map tags (list_by_owner uid coll)) in
      if all_tags = [] then [str ''You haven't used any tags yet.'']
      else [str ''Your tags:\<newline>'' @ join (str '', '') (sort (remdups all_tags))])"

subsection \<open>find_by_tag\<close>

definition usage_find :: pystr where
  "usage_find = str ''Please provide a tag to search for.\<newline>Format: /find #tag''"

text \<open>\<open>context.args[0].replace('#', '')\<close>\<close>

definition find_tag :: "pystr \<Rightarrow> pystr" where
  "find_tag arg = filter (\<lambda>c. c \<noteq> 35) arg"

definition find_message :: "pystr \<Rightarrow> link_data list \<Rightarrow> pystr" where
  "find_message tag links =
     add_links (str ''Links tagged with #'' @ tag @ str '':\<newline>\<newline>'') links"

definition find_by_tag :: "int \<Rightarrow> pystr list \<Rightarrow> collection \<Rightarrow> pystr list" where
  "find_by_tag uid args coll =
     (case args of
        [] \<Rightarrow> [usage_find]
      | arg # _ \<Rightarrow>
          let tag = find_tag arg;
              found_links = find_by_owner_and_tag uid tag coll
          in if found_links = [] then [str ''No links found with tag #'' @ tag]
             else [find_message tag found_links])"

subsection \<open>A long listing\<close>

text \<open>
  The document that user 1 stores with \<open>/save https://aaa...a #t\<close>, the link holding
  4000 letters \<open>a\<close> (the message has 4017 characters): its line in a listing is longer
  than 4000 characters.
\<close>

definition long_doc :: link_data where
  "long_doc = \<lparr>user_id = 1, link = str ''https://'' @ replicate 4000 97, tags = [str ''t''],
     created_at = 0\<rparr>"

section \<open>Whitespace tokens\<close>

lemma split_dropWhile_isspace: "split (dropWhile isspace s) = split s"
  by (induction s) auto

lemma takeWhile_append_none:
  "\<forall>x\<in>set b. \<not> P x \<Longrightarrow> takeWhile P (a @ b) = takeWhile P a"
  by (induction a) (auto simp: takeWhile_eq_Nil_iff)

lemma dropWhile_append_none:
  "\<forall>x\<in>set b. \<not> P x \<Longrightarrow> dropWhile P (a @ b) = dropWhile P a @ b"
  by (induction a) (auto simp: dropWhile_eq_self_iff)

lemma split_all_spaces: "\<forall>x\<in>set b. isspace x \<Longrightarrow> split b = []"
  by (induction b) auto

lemma split_append_spaces: "\<forall>x\<in>set b. isspace x \<Longrightarrow> split (a @ b) = split a"
proof (induction a rule: split.induct)
  case 1
  then show ?case by (simp add: split_all_spaces)
next
  case (2 c cs)
  show ?case
  proof (cases "isspace c")
    case True
    with 2 show ?thesis by simp
  next
    case False
    have t: "takeWhile (\<lambda>x. \<not> isspace x) (cs @ b) = takeWhile (\<lambda>x. \<not> isspace x) cs"
      using "2.prems" by (intro takeWhile_append_none) simp
    have d: "dropWhile (\<lambda>x. \<not> isspace x) (cs @ b) = dropWhile (\<lambda>x. \<not> isspace x) cs @ b"
      using "2.prems" by (intro dropWhile_append_none) simp
    from False 2 show ?thesis by (simp add: t d)
  qed
qed

lemma split_strip: "split (strip s) = split s"
proof -
  let ?s = "dropWhile isspace s"
  have "?s = strip s @ rev (takeWhile isspace (rev ?s))"
    unfolding strip_def
    by (metis rev_append rev_rev_ident takeWhile_dropWhile_id)
  moreover have "\<forall>x\<in>set (rev (takeWhile isspace (rev ?s))). isspace x"
    by (auto dest: set_takeWhileD)
  ultimately have "split ?s = split (strip s)"
    by (metis split_append_spaces)
  then show ?thesis by (simp add: split_dropWhile_isspace)
qed

section \<open>The outcomes of save_link\<close>

lemma save_link_usage:
  "length (split msg) < 2 \<Longrightarrow> save_link rejects uid msg now coll = ([usage_save], coll)"
  by (simp add: save_link_def split_strip)

lemma save_link_invalid:
  "2 \<le> length (split msg) \<Longrightarrow> \<not> valid_url rejects (add_protocol (split msg ! 1)) \<Longrightarrow>
   save_link rejects uid msg now coll = ([invalid_url], coll)"
  by (simp add: save_link_def split_strip Let_def)

lemma save_link_saved:
  "2 \<le> length (split msg) \<Longrightarrow> valid_url rejects (add_protocol (split msg ! 1)) \<Longrightarrow>
   save_link rejects uid msg now coll =
     ([saved_reply (extract_tags (split msg))],
      coll @ [\<lparr>user_id = uid, link = add_protocol (split msg ! 1),
               tags = extract_tags (split msg), created_at = now\<rparr>])"
  by (simp add: save_link_def split_strip Let_def insert_one_def)

lemma save_link_changed:
  assumes "save_link rejects uid msg now coll = (replies, coll')" and "coll' \<noteq> coll"
  shows "2 \<le> length (split msg)"
    and "valid_url rejects (add_protocol (split msg ! 1))"
    and "replies = [saved_reply (extract_tags (split msg))]"
    and "coll' = coll @ [\<lparr>user_id = uid, link = add_protocol (split msg ! 1),
               tags = extract_tags (split msg), created_at = now\<rparr>]"
proof -
  show l: "2 \<le> length (split msg)"
    using assms save_link_usage [of msg rejects uid now coll] by (cases "length (split msg) < 2") auto
  show v: "valid_url rejects (add_protocol (split msg ! 1))"
    using assms l save_link_invalid [of msg rejects uid now coll] by auto
  show "replies = [saved_reply (extract_tags (split msg))]"
    using assms save_link_saved [OF l v, of uid now coll] by simp
  show "coll' = coll @ [\<lparr>user_id = uid, link = add_protocol (split msg ! 1),
               tags = extract_tags (split msg), created_at = now\<rparr>]"
    using assms save_link_saved [OF l v, of uid now coll] by simp
qed

section \<open>The stored tags\<close>

lemmas eval_defs = save_link_def str_def strip_def isspace_def valid_url_def urlparse_def split_scheme_def
     add_protocol_def startswith_def extract_tags_def insert_one_def scheme_char_def ascii_alpha_def ascii_lower_def Let_def

text \<open>
  C9: a /save message with fewer than two whitespace-separated tokens is answered with
  the usage message, which names the expected format, and the collection is left as
  it was: no document is inserted.
\<close>

theorem save_link_missing_argument:
  assumes "length (split msg) < 2"
  shows "save_link rejects uid msg now coll =
    ([str ''Please provide a link and optional tags.\<newline>Format: /save <link> #tag1 #tag2''], coll)"
  using assms by (simp add: save_link_usage usage_save_def)

theorem save_link_missing_argument_witness:
  "length (split (str ''/save'')) < 2 \<and>
   save_link (\<lambda>_. False) 1 (str ''/save'') 0 [] =
    ([str ''Please provide a link and optional tags.\<newline>Format: /save <link> #tag1 #tag2''], [])"
  using save_link_missing_argument [where msg = "str ''/save''" and rejects = "\<lambda>_. False"
      and uid = 1 and now = 0 and coll = "[]"]
  by (simp add: str_def isspace_def)

lemma startswith_hash: "startswith w (str ''#'') \<longleftrightarrow> (\<exists>t. w = 35 # t)"
  by (cases w) (auto simp: startswith_def str_def)

lemma set_extract_tags:
  "set (extract_tags parts) = {drop 1 w |w. w \<in> set (drop 2 parts) \<and> startswith w (str ''#'')}"
  by (auto simp: extract_tags_def)

text \<open>
  C1 (as amended): when a /save message stores a document, its tags are exactly the
  tokens after the link token that start with \<open>#\<close>, with that first character removed
  and the case of the letters kept; tokens that do not start with \<open>#\<close> are ignored,
  and the reply names the stored tags. Nothing is lower-cased: the message
  \<open>/save example.com #a #B\<close> stores the tags \<open>a\<close> and \<open>B\<close>.
\<close>

theorem save_link_tags_extracted:
  assumes "save_link rejects uid msg now coll = (replies, coll')" and "coll' \<noteq> coll"
  shows "\<exists>d. coll' = coll @ [d] \<and>
    set (tags d) = {drop 1 w |w. w \<in> set (drop 2 (split msg)) \<and> startswith w (str ''#'')} \<and>
    replies = [str ''Link saved successfully with tags: '' @
                (if tags d = [] then str ''no tags'' else join (str '', '') (tags d))]"
  using save_link_changed(3,4) [OF assms]
  by (simp add: set_extract_tags saved_reply_def)

theorem save_link_tags_extracted_witness:
  "snd (save_link (\<lambda>_. False) 1 (str ''/save example.com #a #B'') 0 []) \<noteq> [] \<and>
   (\<exists>d. snd (save_link (\<lambda>_. False) 1 (str ''/save example.com #a #B'') 0 []) = [d] \<and>
     set (tags d) = {str ''a'', str ''B''} \<and>
     fst (save_link (\<lambda>_. False) 1 (str ''/save example.com #a #B'') 0 []) =
       [str ''Link saved successfully with tags: a, B''])"
  using save_link_tags_extracted [where msg = "str ''/save example.com #a #B''"
      and rejects = "\<lambda>_. False" and uid = 1 and now = 0 and coll = "[]"
      and replies = "fst (save_link (\<lambda>_. False) 1 (str ''/save example.com #a #B'') 0 [])"
      and coll' = "snd (save_link (\<lambda>_. False) 1 (str ''/save example.com #a #B'') 0 [])"]
  by (simp add: eval_defs saved_reply_def)

theorem save_link_tags_lowercase_counterexample:
  "map tags (snd (save_link (\<lambda>_. False) 1 (str ''/save example.com #a #B'') 0 [])) =
     [[str ''a'', str ''B'']] \<and>
   str ''b'' \<notin> set [str ''a'', str ''B'']"
  by (simp add: eval_defs)

lemma token_shape:
  "(startswith w (str ''#'') \<longrightarrow> drop 1 w \<noteq> [] \<and> \<not> startswith (drop 1 w) (str ''#'')) \<longleftrightarrow>
   (w \<noteq> str ''#'' \<and> \<not> startswith w (str ''##''))"
proof (cases w)
  case Nil
  then show ?thesis by (simp add: startswith_def str_def)
next
  case (Cons c t)
  then show ?thesis by (cases t) (simp_all add: startswith_def str_def)
qed

lemma ball_extract_tags:
  "(\<forall>t\<in>set (extract_tags parts). Q t) \<longleftrightarrow>
   (\<forall>w\<in>set (drop 2 parts). startswith w (str ''#'') \<longrightarrow> Q (drop 1 w))"
  unfolding extract_tags_def by auto

lemma tags_shape:
  "(\<forall>t\<in>set (extract_tags parts). t \<noteq> [] \<and> \<not> startswith t (str ''#'')) \<longleftrightarrow>
   (\<forall>w\<in>set (drop 2 parts). w \<noteq> str ''#'' \<and> \<not> startswith w (str ''##''))"
  unfolding ball_extract_tags token_shape ..

text \<open>
  C4 (as amended): when a /save message stores a document, every stored tag is a
  non-empty string that does not start with \<open>#\<close> exactly when no token after the link
  token is a bare \<open>#\<close> or starts with \<open>##\<close>. The handler removes one leading \<open>#\<close>
  and checks nothing else: the token \<open>#\<close> is stored as the empty tag and \<open>##x\<close> as
  the tag \<open>#x\<close>.
\<close>

theorem save_link_tags_shape:
  assumes "save_link rejects uid msg now coll = (replies, coll')" and "coll' \<noteq> coll"
  shows "\<exists>d. coll' = coll @ [d] \<and>
    ((\<forall>t\<in>set (tags d). t \<noteq> [] \<and> \<not> startswith t (str ''#'')) \<longleftrightarrow>
     (\<forall>w\<in>set (drop 2 (split msg)). w \<noteq> str ''#'' \<and> \<not> startswith w (str ''##'')))"
proof (intro exI conjI)
  show "coll' = coll @ [\<lparr>user_id = uid, link = add_protocol (split msg ! 1),
               tags = extract_tags (split msg), created_at = now\<rparr>]"
    by (rule save_link_changed(4) [OF assms])
  show "(\<forall>t\<in>set (tags \<lparr>user_id = uid, link = add_protocol (split msg ! 1),
               tags = extract_tags (split msg), created_at = now\<rparr>).
            t \<noteq> [] \<and> \<not> startswith t (str ''#'')) \<longleftrightarrow>
     (\<forall>w\<in>set (drop 2 (split msg)). w \<noteq> str ''#'' \<and> \<not> startswith w (str ''##''))"
    unfolding link_data.select_convs by (rule tags_shape)
qed


theorem save_link_tags_shape_witness:
  "snd (save_link (\<lambda>_. False) 1 (str ''/save example.com #a x #b'') 0 []) \<noteq> [] \<and>
   (\<exists>d. snd (save_link (\<lambda>_. False) 1 (str ''/save example.com #a x #b'') 0 []) = [d] \<and>
     list_all (\<lambda>t. t \<noteq> [] \<and> \<not> startswith t (str ''#'')) (tags d))"
proof -
  have e: "save_link (\<lambda>_. False) 1 (str ''/save example.com #a x #b'') 0 [] =
      ([str ''Link saved successfully with tags: a, b''],
       [\<lparr>user_id = 1, link = str ''https://example.com'', tags = [str ''a'', str ''b''],
         created_at = 0\<rparr>])"
    by (simp add: eval_defs saved_reply_def)
  have s: "drop 2 (split (str ''/save example.com #a x #b'')) = [str ''#a'', str ''x'', str ''#b'']"
    by (simp add: str_def isspace_def)
  from save_link_tags_shape [OF e] obtain d where
    d: "[\<lparr>user_id = 1, link = str ''https://example.com'', tags = [str ''a'', str ''b''],
         created_at = 0\<rparr>] = [] @ [d]"
     "(\<forall>t\<in>set (tags d). t \<noteq> [] \<and> \<not> startswith t (str ''#'')) \<longleftrightarrow>
     (\<forall>w\<in>set (drop 2 (split (str ''/save example.com #a x #b''))).
          w \<noteq> str ''#'' \<and> \<not> startswith w (str ''##''))"
    by blast
  have "\<forall>w\<in>set (drop 2 (split (str ''/save example.com #a x #b''))).
          w \<noteq> str ''#'' \<and> \<not> startswith w (str ''##'')"
    unfolding s by (simp add: str_def startswith_def)
  with d(2) have "list_all (\<lambda>t. t \<noteq> [] \<and> \<not> startswith t (str ''#'')) (tags d)"
    by (simp only: list_all_iff)
  with d(1) show ?thesis unfolding e by simp
qed

theorem save_link_tags_shape_counterexample:
  "map tags (snd (save_link (\<lambda>_. False) 1 (str ''/save example.com # ##x'') 0 [])) =
     [[[], str ''#x'']] \<and> startswith (str ''#x'') (str ''#'')"
  by (simp add: eval_defs)

section \<open>Reading\<close>

lemma add_links_concat: "add_links header links = header @ concat (map format_link links)"
  unfolding add_links_def by (induction links arbitrary: header) simp_all

text \<open>
  What \<open>find_by_tag\<close> replies: the usage message without an argument; otherwise the
  tag is the first argument without any \<open>#\<close>, and the reply lists the caller's
  documents that hold this tag, or says that none was found.
\<close>

lemma find_by_tag_replies:
  "find_by_tag uid [] coll =
     [str ''Please provide a tag to search for.\<newline>Format: /find #tag''] \<and>
   find_by_tag uid (arg # args) coll =
     (let tag = filter (\<lambda>c. c \<noteq> 35) arg;
          found = filter (\<lambda>d. user_id d = uid \<and> tag \<in> set (tags d)) coll
      in if found = [] then [str ''No links found with tag #'' @ tag]
         else [str ''Links tagged with #'' @ tag @ str '':\<newline>\<newline>'' @
               concat (map format_link found)]) \<and>
   (35 \<notin> set t \<longrightarrow> find_tag (str ''#'' @ t) = t \<and> find_tag t = t)"
  by (auto simp: find_by_tag_def usage_find_def find_tag_def find_by_owner_and_tag_def
      find_docs_def find_message_def add_links_concat Let_def str_def filter_id_conv)

text \<open>
  C2: /find is meant to search the tag the user names, written with or without its
  leading \<open>#\<close>, and /save stores a tag by removing only the first \<open>#\<close> of its token.
  \<open>find_by_tag\<close> removes every \<open>#\<close> of its argument instead. So the tag \<open>a#b\<close>,
  which \<open>/save example.com #a#b\<close> stores, is not found by \<open>/find #a#b\<close>: the search
  is for \<open>ab\<close>. And \<open>/find #c#\<close> lists the documents tagged \<open>c\<close>.
\<close>

theorem find_by_tag_strips_every_hash:
  "map tags (snd (save_link (\<lambda>_. False) 1 (str ''/save example.com #a#b'') 0 [])) =
     [[str ''a#b'']] \<and>
   find_by_tag 1 [str ''#a#b'']
     (snd (save_link (\<lambda>_. False) 1 (str ''/save example.com #a#b'') 0 [])) =
     [str ''No links found with tag #ab''] \<and>
   find_by_tag 1 [str ''#c#'']
     [\<lparr>user_id = 1, link = str ''https://example.com'', tags = [str ''c''], created_at = 0\<rparr>] =
     [str ''Links tagged with #c:\<newline>\<newline>'' @ [8226] @ str '' https://example.com [c]\<newline>'']"
proof -
  have "map tags (snd (save_link (\<lambda>_. False) 1 (str ''/save example.com #a#b'') 0 [])) =
     [[str ''a#b'']]"
    by (simp add: eval_defs)
  moreover have "find_by_tag 1 [str ''#a#b'']
     (snd (save_link (\<lambda>_. False) 1 (str ''/save example.com #a#b'') 0 [])) =
     [str ''No links found with tag #ab'']"
    by (simp add: eval_defs find_by_tag_def find_tag_def find_by_owner_and_tag_def find_docs_def)
  moreover have "find_by_tag 1 [str ''#c#'']
     [\<lparr>user_id = 1, link = str ''https://example.com'', tags = [str ''c''], created_at = 0\<rparr>] =
     [str ''Links tagged with #c:\<newline>\<newline>'' @ [8226] @ str '' https://example.com [c]\<newline>'']"
    by (simp add: find_by_tag_def find_tag_def find_by_owner_and_tag_def find_docs_def
        find_message_def add_links_concat format_link_def str_def)
  ultimately show ?thesis by blast
qed

text \<open>
  C6: for every owner and tag, the query of \<open>find_by_tag\<close> returns exactly the
  subsequence of the query of \<open>list_links\<close> (the owner's documents, in the same order)
  made of the documents whose tags hold the tag, compared as it is written.
\<close>

theorem find_by_owner_and_tag_filter:
  "find_by_owner_and_tag uid tag coll = filter (\<lambda>d. tag \<in> set (tags d)) (list_by_owner uid coll)"
  by (simp add: find_by_owner_and_tag_def list_by_owner_def find_docs_def)

lemma save_link_collection:
  "snd (save_link rejects a msg now coll) = coll \<or>
   (\<exists>d. snd (save_link rejects a msg now coll) = coll @ [d] \<and> user_id d = a)"
proof (cases "2 \<le> length (split msg) \<and> valid_url rejects (add_protocol (split msg ! 1))")
  case True
  then show ?thesis by (simp add: save_link_saved)
next
  case False
  then show ?thesis
    using save_link_usage [of msg rejects a now coll] save_link_invalid [of msg rejects a now coll]
    by (cases "length (split msg) < 2") auto
qed

lemma find_docs_save_link:
  assumes "a \<noteq> b"
  shows "find_docs (UserId b # conds) (snd (save_link rejects a msg now coll)) =
         find_docs (UserId b # conds) coll"
  using save_link_collection [of rejects a msg now coll] assms
  by (auto simp: find_docs_def)

text \<open>
  C8: a /save by owner \<open>a\<close> leaves the replies of /list, /tags and /find for any other
  owner \<open>b\<close> as they were, whatever the message and the collection. After user 1 has
  saved a link into the empty collection, /list for user 2 still replies that no links
  are saved yet.
\<close>

theorem save_link_isolation:
  assumes "a \<noteq> b"
  shows "list_links b (snd (save_link rejects a msg now coll)) = list_links b coll \<and>
         show_tags b (snd (save_link rejects a msg now coll)) = show_tags b coll \<and>
         find_by_tag b args (snd (save_link rejects a msg now coll)) = find_by_tag b args coll"
proof -
  let ?coll' = "snd (save_link rejects a msg now coll)"
  have l: "list_by_owner b ?coll' = list_by_owner b coll"
    unfolding list_by_owner_def using assms by (rule find_docs_save_link)
  have f: "find_by_owner_and_tag b tag ?coll' = find_by_owner_and_tag b tag coll" for tag
    unfolding find_by_owner_and_tag_def using assms by (rule find_docs_save_link)
  have "find_by_tag b args ?coll' = find_by_tag b args coll"
    by (cases args) (simp_all add: find_by_tag_def f)
  then show ?thesis by (simp add: list_links_def show_tags_def l)
qed

theorem save_link_isolation_witness:
  "(1::int) \<noteq> 2 \<and>
   snd (save_link (\<lambda>_. False) 1 (str ''/save www.test.com #news #tech'') 0 []) \<noteq> [] \<and>
   list_links 2 (snd (save_link (\<lambda>_. False) 1 (str ''/save www.test.com #news #tech'') 0 [])) =
     [str ''You haven't saved any links yet.'']"
proof -
  have c: "snd (save_link (\<lambda>_. False) 1 (str ''/save www.test.com #news #tech'') 0 []) \<noteq> []"
    by (simp add: eval_defs)
  have n: "(1::int) \<noteq> 2" by simp
  have "list_links 2 [] = [str ''You haven't saved any links yet.'']"
    by (simp add: list_links_def list_by_owner_def find_docs_def)
  with save_link_isolation [OF n, of "\<lambda>_. False" "str ''/save www.test.com #news #tech''" 0 "[]"]
    c n show ?thesis by simp
qed

section \<open>Chunking\<close>

lemma concat_slices:
  "concat (map (\<lambda>k. take n (drop (k * n) xs)) [0 ..< m]) = take (m * n) xs"
proof (induction m)
  case 0
  then show ?case by simp
next
  case (Suc m)
  have "take (Suc m * n) xs = take (m * n + n) xs"
    by (simp add: add.commute)
  also have "\<dots> = take (m * n) xs @ take n (drop (m * n) xs)"
    by (rule take_add)
  finally show ?case using Suc by simp
qed

lemma chunks_slices:
  "chunks message =
     map (\<lambda>k. take 4000 (drop (k * 4000) message)) [0 ..< (length message + 3999) div 4000]"
  by (simp add: chunks_def range_step_def comp_def add.commute)

lemma chunks_cover: "length message \<le> (length message + 3999) div 4000 * 4000"
proof -
  have "(length message + 3999) div 4000 * 4000 + (length message + 3999) mod 4000 =
        length message + 3999"
    by simp
  moreover have "(length message + 3999) mod 4000 < 4000"
    by simp
  ultimately show ?thesis by linarith
qed

lemma chunk_start:
  assumes "k < (length message + 3999) div 4000"
  shows "k * 4000 < length message"
proof -
  from assms have "Suc k * 4000 \<le> length message + 3999"
    by (simp add: less_eq_div_iff_mult_less_eq Suc_le_eq [symmetric] del: mult_Suc)
  then show ?thesis by simp
qed

lemma concat_chunks: "concat (chunks message) = message"
  unfolding chunks_slices concat_slices using chunks_cover by simp

lemma length_chunks: "length (chunks message) = (length message + 3999) div 4000"
  by (simp add: chunks_slices)

lemma chunk_bounds:
  assumes "r \<in> set (chunks message)"
  shows "0 < length r \<and> length r \<le> 4000"
proof -
  from assms obtain k where k: "k < (length message + 3999) div 4000"
    and r: "r = take 4000 (drop (k * 4000) message)"
    unfolding chunks_slices by auto
  from k have "k * 4000 < length message" by (rule chunk_start)
  with r show ?thesis by simp
qed

lemma two_chunks: "4000 < (n::nat) \<Longrightarrow> 2 \<le> (n + 3999) div 4000"
  by (simp add: less_eq_div_iff_mult_less_eq)

text \<open>
  C7: when the message that /list has formatted is longer than 4000 characters, it is
  sent as at least two replies, in order, none longer than 4000 characters (and none
  empty), and the replies put together are the formatted message.
\<close>

theorem list_links_chunking:
  assumes "4000 < length (list_message (list_by_owner uid coll))"
  shows "2 \<le> length (list_links uid coll) \<and>
         (\<forall>r\<in>set (list_links uid coll). 0 < length r \<and> length r \<le> 4000) \<and>
         concat (list_links uid coll) = list_message (list_by_owner uid coll)"
proof -
  let ?message = "list_message (list_by_owner uid coll)"
  have "list_by_owner uid coll \<noteq> []"
    using assms by (auto simp: list_message_def add_links_def str_def)
  with assms have l: "list_links uid coll = chunks ?message"
    by (simp add: list_links_def Let_def)
  have "2 \<le> (length ?message + 3999) div 4000"
    using assms by (rule two_chunks)
  moreover have "\<forall>r\<in>set (chunks ?message). 0 < length r \<and> length r \<le> 4000"
    using chunk_bounds by blast
  ultimately show ?thesis
    unfolding l length_chunks concat_chunks by blast
qed

lemma long_doc_fields:
  "user_id long_doc = 1" "tags long_doc = [str ''t'']" "length (link long_doc) = 4008"
  by (simp_all add: long_doc_def str_def)

lemma long_doc_listed: "list_by_owner 1 [long_doc] = [long_doc]"
  by (simp add: list_by_owner_def find_docs_def long_doc_fields)

lemma long_doc_line: "length (format_link long_doc) = 4015"
  by (simp add: format_link_def long_doc_fields str_def)

theorem list_links_chunking_witness:
  "4000 < length (list_message (list_by_owner 1 [long_doc])) \<and>
   2 \<le> length (list_links 1 [long_doc]) \<and>
   concat (list_links 1 [long_doc]) = list_message (list_by_owner 1 [long_doc])"
proof -
  have "4000 < length (list_message (list_by_owner 1 [long_doc]))"
    by (simp add: long_doc_listed list_message_def add_links_concat long_doc_line str_def)
  with list_links_chunking [of 1 "[long_doc]"] show ?thesis by simp
qed

lemma find_by_tag_single_reply: "length (find_by_tag uid args coll) = 1"
  by (cases args) (simp_all add: find_by_tag_def Let_def)

text \<open>
  C3: /find does not split its reply: whatever the arguments and the collection, it
  sends exactly one reply. On the collection that holds \<open>long_doc\<close>, the
  command \<open>/find #t\<close> sends one reply of 4038 characters, the header
  \<open>Links tagged with #t:\<close> and the document's line, while /list sends the same line
  in two replies of 4000 and 34 characters.
\<close>

theorem find_by_tag_no_chunking:
  "length (find_by_tag uid args coll) = 1 \<and>
   find_by_tag 1 [str ''#t''] [long_doc] =
     [str ''Links tagged with #t:\<newline>\<newline>'' @ format_link long_doc] \<and>
   length (str ''Links tagged with #t:\<newline>\<newline>'' @ format_link long_doc) = 4038 \<and>
   map length (list_links 1 [long_doc]) = [4000, 34]"
proof -
  have f: "find_by_tag 1 [str ''#t''] [long_doc] =
     [str ''Links tagged with #t:\<newline>\<newline>'' @ format_link long_doc]"
    by (simp add: find_by_tag_def find_tag_def find_by_owner_and_tag_def find_docs_def
        find_message_def add_links_concat long_doc_fields str_def)
  have n: "length (str ''Links tagged with #t:\<newline>\<newline>'' @ format_link long_doc) = 4038"
    by (simp add: long_doc_line str_def)
  have m: "length (list_message [long_doc]) = 4034"
    by (simp add: list_message_def add_links_concat long_doc_line str_def)
  then have "list_links 1 [long_doc] = chunks (list_message [long_doc])"
    by (simp add: list_links_def long_doc_listed Let_def)
  moreover have "[0 ..< 2::nat] = [0, 1]"
    by (simp add: numeral_2_eq_2)
  ultimately have "map length (list_links 1 [long_doc]) = [4000, 34]"
    by (simp add: chunks_slices m)
  with f n find_by_tag_single_reply [of uid args coll] show ?thesis by simp
qed

section \<open>Link validation\<close>

lemma startswith_append: "startswith s p \<longleftrightarrow> (\<exists>r. s = p @ r)"
proof
  assume "startswith s p"
  then have "s = p @ drop (length p) s"
    unfolding startswith_def by (metis append_take_drop_id)
  then show "\<exists>r. s = p @ r" ..
next
  assume "\<exists>r. s = p @ r"
  then show "startswith s p" by (auto simp: startswith_def)
qed

lemma split_scheme_http: "split_scheme (str ''http://'' @ r) = (str ''http'', str ''//'' @ r)"
  by (simp add: split_scheme_def str_def ascii_alpha_def scheme_char_def ascii_lower_def)

lemma split_scheme_https: "split_scheme (str ''https://'' @ r) = (str ''https'', str ''//'' @ r)"
  by (simp add: split_scheme_def str_def ascii_alpha_def scheme_char_def ascii_lower_def)

lemma add_protocol_prefix:
  "(\<exists>r. add_protocol l = str ''http://'' @ r) \<or> (\<exists>r. add_protocol l = str ''https://'' @ r)"
  unfolding add_protocol_def startswith_append by auto

lemma urlparse_scheme:
  assumes "urlparse rejects (add_protocol l) = Inr (scheme, netloc)"
  shows "scheme = str ''http'' \<or> scheme = str ''https''"
  using add_protocol_prefix [of l]
proof
  assume "\<exists>r. add_protocol l = str ''http://'' @ r"
  then obtain r where "add_protocol l = str ''http://'' @ r" ..
  with assms show ?thesis
    by (auto simp: urlparse_def split_scheme_http Let_def split: if_splits)
next
  assume "\<exists>r. add_protocol l = str ''https://'' @ r"
  then obtain r where "add_protocol l = str ''https://'' @ r" ..
  with assms show ?thesis
    by (auto simp: urlparse_def split_scheme_https Let_def split: if_splits)
qed

text \<open>
  What \<open>save_link\<close> does with the link token of a message of at least two tokens:
  the token is kept when it starts with \<open>http://\<close> or \<open>https://\<close> and gets the
  prefix \<open>https://\<close> otherwise; when \<open>urlparse\<close> raises or the netloc is empty, the
  reply is the invalid-URL message and nothing is stored; otherwise one document
  with this link is appended.
\<close>

lemma save_link_url:
  assumes "2 \<le> length (split msg)"
  shows
    "let candidate = split msg ! 1;
         url = (if startswith candidate (str ''http://'') \<or> startswith candidate (str ''https://'')
                then candidate else str ''https://'' @ candidate)
     in case urlparse rejects url of
          Inl ValueError \<Rightarrow>
            save_link rejects uid msg now coll =
              ([str ''Please provide a valid URL.\<newline>Example: www.example.com or https://example.com''],
               coll)
        | Inr (scheme, netloc) \<Rightarrow>
            (scheme = str ''http'' \<or> scheme = str ''https'') \<and>
            (if netloc = [] then
               save_link rejects uid msg now coll =
                 ([str ''Please provide a valid URL.\<newline>Example: www.example.com or https://example.com''],
                  coll)
             else
               snd (save_link rejects uid msg now coll) =
                 coll @ [\<lparr>user_id = uid, link = url, tags = extract_tags (split msg),
                          created_at = now\<rparr>])"
proof -
  let ?url = "add_protocol (split msg ! 1)"
  have u: "(if startswith (split msg ! 1) (str ''http://'') \<or>
               startswith (split msg ! 1) (str ''https://'')
            then split msg ! 1 else str ''https://'' @ split msg ! 1) = ?url"
    by (simp add: add_protocol_def)
  show ?thesis
  proof (cases "urlparse rejects ?url")
    case (Inl e)
    then have "\<not> valid_url rejects ?url"
      by (cases e) (simp add: valid_url_def)
    with assms Inl show ?thesis
      unfolding Let_def u by (cases e) (simp add: save_link_invalid invalid_url_def)
  next
    case (Inr p)
    obtain scheme netloc where p: "p = (scheme, netloc)" by (cases p)
    have s: "scheme = str ''http'' \<or> scheme = str ''https''"
      using Inr p by (auto dest: urlparse_scheme)
    show ?thesis
    proof (cases "netloc = []")
      case True
      with Inr p have "\<not> valid_url rejects ?url" by (simp add: valid_url_def)
      with assms Inr p s True show ?thesis
        unfolding Let_def u by (simp add: save_link_invalid invalid_url_def)
    next
      case False
      with Inr p have "valid_url rejects ?url" by (simp add: valid_url_def)
      with assms Inr p s False show ?thesis
        unfolding Let_def u by (simp add: save_link_saved)
    qed
  qed
qed

text \<open>
  C5: \<open>save_link\<close> is to add \<open>https://\<close> only when no protocol is specified, and to
  store only a URL with a scheme and a host. Its test is for the two prefixes
  \<open>http://\<close> and \<open>https://\<close> alone: the link \<open>ftp://example.com\<close>, whose scheme is
  \<open>ftp\<close>, is stored as \<open>https://ftp://example.com\<close>, whose netloc is \<open>ftp:\<close>. And
  the validation reads the netloc, not the host: \<open>/save :80\<close> stores \<open>https://:80\<close>,
  whose netloc \<open>:80\<close> is a port with no host before it.
\<close>

theorem save_link_prefixes_explicit_scheme:
  "urlparse (\<lambda>_. False) (str ''ftp://example.com'') = Inr (str ''ftp'', str ''example.com'') \<and>
   map link (snd (save_link (\<lambda>_. False) 1 (str ''/save ftp://example.com'') 0 [])) =
     [str ''https://ftp://example.com''] \<and>
   urlparse (\<lambda>_. False) (str ''https://ftp://example.com'') = Inr (str ''https'', str ''ftp:'') \<and>
   map link (snd (save_link (\<lambda>_. False) 1 (str ''/save :80'') 0 [])) = [str ''https://:80''] \<and>
   urlparse (\<lambda>_. False) (str ''https://:80'') = Inr (str ''https'', str '':80'')"
proof -
  have "urlparse (\<lambda>_. False) (str ''ftp://example.com'') =
      Inr (str ''ftp'', str ''example.com'')"
    by (simp add: eval_defs)
  moreover have "map link (snd (save_link (\<lambda>_. False) 1 (str ''/save ftp://example.com'') 0 [])) =
     [str ''https://ftp://example.com'']"
    by (simp add: eval_defs)
  moreover have "urlparse (\<lambda>_. False) (str ''https://ftp://example.com'') =
      Inr (str ''https'', str ''ftp:'')"
    by (simp add: eval_defs)
  moreover have "map link (snd (save_link (\<lambda>_. False) 1 (str ''/save :80'') 0 [])) =
      [str ''https://:80'']"
    by (simp add: eval_defs)
  moreover have "urlparse (\<lambda>_. False) (str ''https://:80'') = Inr (str ''https'', str '':80'')"
    by (simp add: eval_defs)
  ultimately show ?thesis by blast
qed

section \<open>The order of the stored tags\<close>

lemma link_token_no_hash:
  assumes "valid_url rejects (add_protocol l)"
  shows "\<not> startswith l (str ''#'')"
proof
  assume "startswith l (str ''#'')"
  then obtain t where l: "l = 35 # t" by (auto simp: startswith_hash)
  then have "add_protocol l = str ''https://'' @ (35 # t)"
    by (simp add: add_protocol_def startswith_def str_def)
  then have "urlparse rejects (add_protocol l) = Inr (str ''https'', [])"
    by (simp add: urlparse_def split_scheme_https) (simp add: str_def)
  with assms show False by (simp add: valid_url_def)
qed

lemma extract_tags_arguments:
  assumes "2 \<le> length parts" and "\<not> startswith (parts ! 1) (str ''#'')"
  shows "extract_tags parts = map (drop 1) (filter (\<lambda>w. startswith w (str ''#'')) (drop 1 parts))"
proof -
  from assms(1) have "drop 1 parts = parts ! 1 # drop 2 parts"
    by (metis Cons_nth_drop_Suc One_nat_def Suc_1 Suc_le_lessD)
  with assms(2) show ?thesis by (simp add: extract_tags_def)
qed

lemma count_hash_tokens:
  "count_list (map (drop 1) (filter (\<lambda>w. startswith w (str ''#'')) ws)) t =
   count_list ws (str ''#'' @ t)"
proof -
  have "count_list (map (drop 1) (filter (\<lambda>w. startswith w (str ''#'')) ws)) t =
        count_list ws (35 # t)"
    by (induction ws) (auto simp: startswith_hash)
  then show ?thesis by (simp add: str_def)
qed

text \<open>
  C10: when a /save message stores a document, its tags field is the list of the
  tokens after the command name that start with \<open>#\<close>, in the order of the command,
  each without its first character. (The link token is not among them: a link that
  starts with \<open>#\<close> has an empty netloc and is not stored.) Nothing is collapsed: a
  tag is stored as many times as its token occurs.
\<close>

theorem save_link_tags_ordered:
  assumes "save_link rejects uid msg now coll = (replies, coll')" and "coll' \<noteq> coll"
  shows "\<exists>d. coll' = coll @ [d] \<and>
    tags d = map (drop 1) (filter (\<lambda>w. startswith w (str ''#'')) (drop 1 (split msg))) \<and>
    (\<forall>t. count_list (tags d) t = count_list (drop 1 (split msg)) (str ''#'' @ t))"
proof -
  let ?d = "\<lparr>user_id = uid, link = add_protocol (split msg ! 1),
             tags = extract_tags (split msg), created_at = now\<rparr>"
  have c: "coll' = coll @ [?d]"
    by (rule save_link_changed(4) [OF assms])
  have "\<not> startswith (split msg ! 1) (str ''#'')"
    using save_link_changed(2) [OF assms] by (rule link_token_no_hash)
  with save_link_changed(1) [OF assms]
  have t: "tags ?d = map (drop 1) (filter (\<lambda>w. startswith w (str ''#'')) (drop 1 (split msg)))"
    by (simp add: extract_tags_arguments)
  have "\<forall>t. count_list (tags ?d) t = count_list (drop 1 (split msg)) (str ''#'' @ t)"
    unfolding t count_hash_tokens by simp
  with c t show ?thesis by blast
qed

theorem save_link_tags_ordered_witness:
  "snd (save_link (\<lambda>_. False) 1 (str ''/save example.com #a x #b #a'') 0 []) \<noteq> [] \<and>
   (\<exists>d. snd (save_link (\<lambda>_. False) 1 (str ''/save example.com #a x #b #a'') 0 []) = [d] \<and>
     tags d = [str ''a'', str ''b'', str ''a''] \<and> count_list (tags d) (str ''a'') = 2)"
  using save_link_tags_ordered [where msg = "str ''/save example.com #a x #b #a''"
      and rejects = "\<lambda>_. False" and uid = 1 and now = 0 and coll = "[]"
      and replies = "fst (save_link (\<lambda>_. False) 1 (str ''/save example.com #a x #b #a'') 0 [])"
      and coll' = "snd (save_link (\<lambda>_. False) 1 (str ''/save example.com #a x #b #a'') 0 [])"]
  by (simp add: eval_defs)

end
